theory Spec2Isabelle
  imports
    Complex_Main
    "HOL-Library.Multiset"
    "HOL-Library.Sublist"
    "HOL-Library.AList"
    "HOL-Library.Char_ord"
    "HOL-Library.List_Lexorder"
    "HOL-Library.Product_Lexorder"
begin

section \<open>Image reconciliation of diff-docx (internal/image/compare.go)\<close>

text \<open>
  A shallow embedding of the image matching module. Go strings are byte strings and are
  modelled as \<^typ>\<open>string\<close>; Go's \<open><\<close> on strings is the bytewise lexicographic order,
  which is the order of \<^typ>\<open>char list\<close> from \<open>List_Lexorder\<close> and \<open>Char_ord\<close>.
  A \<open>float64\<close> that is finite is a rational number, so scores are of type \<^typ>\<open>rat\<close>
  and the rounding of \<open>strconv.ParseFloat\<close> is written out.
\<close>

subsection \<open>Data\<close>

datatype ImageInfo = ImageInfo (Name: string) (Path: string)

datatype MatchedPair = MatchedPair (Image1: ImageInfo) (Image2: ImageInfo)

record DiffPair =
  Image1 :: ImageInfo
  Image2 :: ImageInfo
  PSNR :: rat
  DiffPath :: string

record MatchResult =
  Matched :: "MatchedPair list"
  Different :: "DiffPair list"
  OnlyIn1 :: "ImageInfo list"
  OnlyIn2 :: "ImageInfo list"
  Skipped :: "ImageInfo list"

datatype imageEntry = imageEntry (name: string) (path: string)

definition PSNRThreshold :: rat where
  "PSNRThreshold = 1"

definition rasterExts :: "string set" where
  "rasterExts = {''.png'', ''.jpg'', ''.jpeg'', ''.bmp'', ''.gif'', ''.tiff'', ''.tif'', ''.webp''}"

definition vectorExts :: "string set" where
  "vectorExts = {''.wmf'', ''.emf'', ''.svg''}"

subsection \<open>Strings and paths (strings, path/filepath)\<close>

text \<open>
  \<open>strings.ToLower\<close> on ASCII text: the letters \<open>A\<close> to \<open>Z\<close> move to \<open>a\<close> to \<open>z\<close>, every
  other byte stays. (On text outside ASCII Go lowers whole code points; the names of the
  media files of a document archive and the extensions of the two tables are ASCII.)
\<close>

definition toLowerChar :: "char \<Rightarrow> char" where
  "toLowerChar c =
     (case map_of (zip ''ABCDEFGHIJKLMNOPQRSTUVWXYZ'' ''abcdefghijklmnopqrstuvwxyz'') c of
        Some l \<Rightarrow> l
      | None \<Rightarrow> c)"

definition ToLower :: "string \<Rightarrow> string" where
  "ToLower s = map toLowerChar s"

text \<open>
  \<open>filepath.Ext\<close>: scan from the last byte towards the first, stop at a separator, return
  the suffix that starts at the first dot met. \<open>ext_scan\<close> reads the reversed path and
  collects the bytes passed so far.
\<close>

fun ext_scan :: "string \<Rightarrow> string \<Rightarrow> string" where
  "ext_scan [] seen = []"
| "ext_scan (c # cs) seen =
     (if c = CHR ''/'' then []
      else if c = CHR ''.'' then c # seen
      else ext_scan cs (c # seen))"

definition Ext :: "string \<Rightarrow> string" where
  "Ext p = ext_scan (rev p) []"

text \<open>\<open>strings.TrimSuffix\<close>, \<open>strings.Contains\<close>.\<close>

definition TrimSuffix :: "string \<Rightarrow> string \<Rightarrow> string" where
  "TrimSuffix s suf = (if suffix suf s then take (length s - length suf) s else s)"

fun Contains :: "string \<Rightarrow> string \<Rightarrow> bool" where
  "Contains [] sub = (sub = [])"
| "Contains (c # cs) sub = (prefix sub (c # cs) \<or> Contains cs sub)"

text \<open>
  \<open>filepath.Base\<close> (Unix): the empty path is \<open>.\<close>; trailing separators are dropped; the
  last element is what follows the last separator left; a path of separators only is \<open>/\<close>.
\<close>

definition Base :: "string \<Rightarrow> string" where
  "Base p =
     (if p = [] then ''.''
      else let q = rev (dropWhile (\<lambda>c. c = CHR ''/'') (rev p));
               b = rev (takeWhile (\<lambda>c. c \<noteq> CHR ''/'') (rev q))
           in if b = [] then ''/'' else b)"

text \<open>
  \<open>filepath.Clean\<close> and \<open>filepath.Join\<close> (Unix). \<open>Clean\<close> reads the path element by
  element: an empty element and \<open>.\<close> are dropped; \<open>..\<close> removes the element written last,
  unless nothing but \<open>..\<close> elements were written, in which case it is kept when the path
  is not rooted and dropped when it is; the result of an empty output is \<open>.\<close>.
\<close>

fun split_sep :: "string \<Rightarrow> string \<Rightarrow> string list" where
  "split_sep [] cur = [rev cur]"
| "split_sep (c # cs) cur =
     (if c = CHR ''/'' then rev cur # split_sep cs [] else split_sep cs (c # cur))"

fun clean_elems :: "bool \<Rightarrow> string list \<Rightarrow> string list \<Rightarrow> string list" where
  "clean_elems rooted [] out = rev out"
| "clean_elems rooted (e # es) out =
     (if e = [] \<or> e = ''.'' then clean_elems rooted es out
      else if e = ''..'' then
        (case out of
           [] \<Rightarrow> if rooted then clean_elems rooted es out else clean_elems rooted es (e # out)
         | l # ls \<Rightarrow>
             if l = ''..'' then clean_elems rooted es (e # out) else clean_elems rooted es ls)
      else clean_elems rooted es (e # out))"

fun join_sep :: "string list \<Rightarrow> string" where
  "join_sep [] = []"
| "join_sep [e] = e"
| "join_sep (e # es) = e @ ''/'' @ join_sep es"

definition Clean :: "string \<Rightarrow> string" where
  "Clean p =
     (if p = [] then ''.''
      else let rooted = (hd p = CHR ''/'');
               body = join_sep (clean_elems rooted (split_sep p []) [])
           in if rooted then CHR ''/'' # body
              else if body = [] then ''.'' else body)"

definition Join :: "string \<Rightarrow> string \<Rightarrow> string" where
  "Join a b =
     (if a \<noteq> [] then Clean (a @ ''/'' @ b)
      else if b \<noteq> [] then Clean b
      else [])"

subsection \<open>Decimal text to float64 (strconv.ParseFloat)\<close>

text \<open>
  The pattern of \<open>parsePSNROutput\<close> hands \<open>ParseFloat\<close> a non-empty run of digits and dots.
  On such text \<open>ParseFloat\<close> is a syntax error unless there is at most one dot and at least
  one digit; otherwise the decimal is rounded to the nearest float64, ties to even, and a
  value that rounds beyond the largest finite float64 is a range error. Tiny values round
  to a subnormal or to zero without error. \<open>None\<close> stands for \<open>err != nil\<close>.
\<close>

definition isDigit :: "char \<Rightarrow> bool" where
  "isDigit c = (CHR ''0'' \<le> c \<and> c \<le> CHR ''9'')"

definition digit_val :: "char \<Rightarrow> nat" where
  "digit_val c = of_char c - 48"

definition decimal_nat :: "string \<Rightarrow> nat" where
  "decimal_nat s = foldl (\<lambda>n c. 10 * n + digit_val c) 0 s"

definition decimal_syntax :: "string \<Rightarrow> bool" where
  "decimal_syntax s =
     ((\<forall>c \<in> set s. isDigit c \<or> c = CHR ''.'') \<and>
      length (filter (\<lambda>c. c = CHR ''.'') s) \<le> 1 \<and>
      (\<exists>c \<in> set s. isDigit c))"

text \<open>
  The decimal is the fraction \<open>n / d\<close> of two naturals, and the rounding works on the two:
  \<open>mul2 k\<close> multiplies the fraction by \<open>2 ^ k\<close>, \<open>ilog2\<close> is the binary exponent
  \<open>\<lfloor>log\<^sub>2 (n / d)\<rfloor>\<close>, \<open>round_half_even\<close> the integer nearest to \<open>n / d\<close>. A float64 has
  53 significant bits and its exponent is at least \<open>-1022\<close> (below, the subnormal numbers
  keep the spacing \<open>2 ^ -1074\<close>); a result of \<open>2 ^ 1024\<close> or more is out of range.
\<close>

fun bitlen :: "nat \<Rightarrow> nat" where
  "bitlen n = (if n = 0 then 0 else Suc (bitlen (n div 2)))"

declare bitlen.simps [simp del]

definition pow2 :: "int \<Rightarrow> rat" where
  "pow2 e = (if 0 \<le> e then 2 ^ nat e else 1 / 2 ^ nat (- e))"

definition mul2 :: "int \<Rightarrow> nat \<times> nat \<Rightarrow> nat \<times> nat" where
  "mul2 k f = (if 0 \<le> k then (fst f * 2 ^ nat k, snd f) else (fst f, snd f * 2 ^ nat (- k)))"

definition ilog2 :: "nat \<Rightarrow> nat \<Rightarrow> int" where
  "ilog2 n d =
     (let e = int (bitlen n) - int (bitlen d);
          f = mul2 (- e) (n, d)
      in if snd f \<le> fst f then e else e - 1)"

definition round_half_even :: "nat \<times> nat \<Rightarrow> nat" where
  "round_half_even f =
     (let q = fst f div snd f; r = fst f mod snd f
      in if 2 * r < snd f then q
         else if snd f < 2 * r then q + 1
         else if even q then q else q + 1)"

definition round64 :: "nat \<Rightarrow> nat \<Rightarrow> rat option" where
  "round64 n d =
     (if n = 0 then Some 0
      else let e = max (ilog2 n d) (- 1022);
               m = round_half_even (mul2 (52 - e) (n, d));
               r = of_nat m * pow2 (e - 52)
           in if pow2 1024 \<le> r then None else Some r)"

definition ParseFloat :: "string \<Rightarrow> rat option" where
  "ParseFloat s =
     (if decimal_syntax s then
        (let ip = takeWhile isDigit s; fp = drop 1 (dropWhile isDigit s)
         in round64 (decimal_nat (ip @ fp)) (10 ^ length fp))
      else None)"

subsection \<open>The channel pattern (regexp)\<close>

text \<open>
  The pattern is \<^verbatim>\<open>(?i)(red|green|blue|all):\s*([\d.]+|inf)\<close>. A match starts with one of the
  four names in any letter case, then a colon, then the longest run of white space
  (\<open>\s\<close> is tab, line feed, form feed, carriage return and space), then either the longest
  non-empty run of digits and dots or the word \<open>inf\<close> in any letter case. White space is
  disjoint from what may follow it, so giving some of it back never helps.
  None of the letters of the pattern folds to a character outside ASCII, and a byte of a
  longer UTF-8 sequence matches nothing, so the bytes can be read one by one.
  \<open>matchAt\<close> matches at the start of its argument and returns the second group with the
  text after the match. \<open>FindAllStringSubmatch\<close> returns the second group of every match,
  leftmost first and without overlap: after a match the search goes on behind it.
\<close>

definition isSpace :: "char \<Rightarrow> bool" where
  "isSpace c = (c \<in> {CHR 0x09, CHR 0x0A, CHR 0x0C, CHR 0x0D, CHR '' ''})"

definition isDigitDot :: "char \<Rightarrow> bool" where
  "isDigitDot c = (isDigit c \<or> c = CHR ''.'')"

definition stripFold :: "string \<Rightarrow> string \<Rightarrow> string option" where
  "stripFold w s =
     (if length w \<le> length s \<and> ToLower (take (length w) s) = w
      then Some (drop (length w) s) else None)"

definition channelName :: "string \<Rightarrow> string option" where
  "channelName s =
     (case stripFold ''red'' s of Some r \<Rightarrow> Some r | None \<Rightarrow>
      (case stripFold ''green'' s of Some r \<Rightarrow> Some r | None \<Rightarrow>
       (case stripFold ''blue'' s of Some r \<Rightarrow> Some r | None \<Rightarrow>
        stripFold ''all'' s)))"

definition channelValue :: "string \<Rightarrow> (string \<times> string) option" where
  "channelValue t =
     (let v = takeWhile isDigitDot t
      in if v \<noteq> [] then Some (v, dropWhile isDigitDot t)
         else (case stripFold ''inf'' t of
                 Some rest \<Rightarrow> Some (take 3 t, rest)
               | None \<Rightarrow> None))"

definition matchAt :: "string \<Rightarrow> (string \<times> string) option" where
  "matchAt s =
     (case channelName s of
        None \<Rightarrow> None
      | Some r \<Rightarrow>
          (case r of
             [] \<Rightarrow> None
           | c # r' \<Rightarrow> if c = CHR '':'' then channelValue (dropWhile isSpace r') else None))"

function FindAllStringSubmatch :: "string \<Rightarrow> string list" where
  "FindAllStringSubmatch [] = []"
| "FindAllStringSubmatch (c # cs) =
     (case matchAt (c # cs) of
        Some (v, rest) \<Rightarrow> v # FindAllStringSubmatch rest
      | None \<Rightarrow> FindAllStringSubmatch cs)"
  by pat_completeness auto
termination
proof (relation "measure length")
  show "wf (measure length)" by simp
next
  fix c :: char and cs x2 v rest
  assume m: "matchAt (c # cs) = Some x2" and x2: "(v, rest) = x2"
  have strip: "length r \<le> length s" if "stripFold w s = Some r" for w s r
    using that by (auto simp: stripFold_def split: if_splits)
  from m x2 obtain r r' where r: "channelName (c # cs) = Some r" "r = CHR '':'' # r'"
    and v: "channelValue (dropWhile isSpace r') = Some (v, rest)"
    by (auto simp: matchAt_def split: option.splits list.splits if_splits)
  have "length rest \<le> length (dropWhile isSpace r')"
    using v by (auto simp: channelValue_def Let_def length_dropWhile_le
        split: if_splits option.splits dest: strip)
  also have "\<dots> \<le> length r'" by (rule length_dropWhile_le)
  also have "\<dots> < length r" using r(2) by simp
  also have "\<dots> \<le> length (c # cs)"
    using r(1) by (auto simp: channelName_def split: option.splits dest: strip)
  finally show "(rest, c # cs) \<in> measure length" by simp
next
  fix c :: char and cs
  show "(cs, c # cs) \<in> measure length" by simp
qed

subsection \<open>parsePSNROutput\<close>

text \<open>
  The loop over the matches keeps the pair \<open>(isDifferent, psnr)\<close>; \<open>psnrStep\<close> is its body:
  an \<open>inf\<close> and a value that does not parse leave the pair as it is.
\<close>

definition psnrStep :: "string \<Rightarrow> bool \<times> rat \<Rightarrow> bool \<times> rat" where
  "psnrStep val st =
     (if ToLower val = ''inf'' then st
      else (case ParseFloat val of
              None \<Rightarrow> st
            | Some psnrValue \<Rightarrow>
                (let psnr = (if snd st < 0 \<or> psnrValue < snd st then psnrValue else snd st);
                     isDifferent = (if psnrValue < PSNRThreshold then True else fst st)
                 in (isDifferent, psnr))))"

definition parsePSNROutput :: "string \<Rightarrow> bool \<times> rat" where
  "parsePSNROutput output =
     (let (isDifferent, psnr) = fold psnrStep (FindAllStringSubmatch output) (False, - 1)
      in if psnr < 0 then
           (if Contains output '' 0 '' \<or> Contains output [CHR '' '', CHR ''0'', CHR 0x0A]
            then (True, 0)
            else (isDifferent, - 1))
         else (isDifferent, psnr))"

subsection \<open>compare\<close>

text \<open>
  The comparison program is outside the repository: a value of type \<open>magick\<close> gives, for
  the two image paths and the path of the difference image, what one run of
  \<^verbatim>\<open>magick compare -verbose -metric PSNR\<close> yields: the error of \<open>cmd.Run\<close> (none, an exit
  status, or another error such as a program that could not be started) and the two
  output streams. The file system is not part of the model, so the removal of the
  difference image does not show.
\<close>

datatype run_error = ExitError int | OtherError

record process =
  runErr :: "run_error option"
  stdout :: string
  stderr :: string

type_synonym magick = "string \<Rightarrow> string \<Rightarrow> string \<Rightarrow> process"

datatype error =
    MkdirTempFailed
  | CompareFailed run_error string
  | PairFailed string string error

definition compare :: "magick \<Rightarrow> string \<Rightarrow> string \<Rightarrow> string \<Rightarrow> error + (bool \<times> rat \<times> string)" where
  "compare run image1 image2 outputDir =
     (let baseName = TrimSuffix (Base image1) (Ext image1);
          diffPath = Join outputDir (baseName @ ''_cmp.png'');
          p = run image1 image2 diffPath;
          output = stderr p @ stdout p;
          (isDifferent, psnr) = parsePSNROutput output;
          diffPath = (if \<not> isDifferent then [] else diffPath)
      in if runErr p \<noteq> None \<and> \<not> isDifferent then
           (case runErr p of
              Some (ExitError code) \<Rightarrow>
                if 1 < code then Inl (CompareFailed (ExitError code) output)
                else Inr (isDifferent, psnr, diffPath)
            | _ \<Rightarrow> Inr (isDifferent, psnr, diffPath))
         else Inr (isDifferent, psnr, diffPath))"

subsection \<open>Capability table and grouping\<close>

text \<open>
  \<open>hasLibreOffice\<close> is the result of the one probe of the process (\<open>exec.LookPath\<close>); it is
  an argument of the model.
\<close>

definition canCompareExt :: "bool \<Rightarrow> string \<Rightarrow> bool" where
  "canCompareExt hasLibreOffice ext =
     (let ext = ToLower ext
      in if ext \<in> rasterExts then True
         else if ext \<in> vectorExts then hasLibreOffice
         else False)"

text \<open>
  A Go map from names to paths is given by the list of its entries in the order the
  \<open>range\<close> loop meets them; the names of such a list are distinct. The map of groups is an
  association list: \<open>lookup\<close> is \<open>groups[ext]\<close>, the empty slice for a key that is absent.
  \<open>sort.Slice\<close> with \<open><\<close> on the names is \<open>sort_key name\<close>; the names of a group are
  distinct, so every sorting algorithm returns the same slice.
\<close>

definition lookup :: "(string \<times> imageEntry list) list \<Rightarrow> string \<Rightarrow> imageEntry list" where
  "lookup groups ext = (case map_of groups ext of None \<Rightarrow> [] | Some l \<Rightarrow> l)"

definition addImage :: "string \<times> string \<Rightarrow> (string \<times> imageEntry list) list \<Rightarrow> (string \<times> imageEntry list) list" where
  "addImage e groups =
     (let ext = ToLower (Ext (fst e))
      in AList.update ext (lookup groups ext @ [imageEntry (fst e) (snd e)]) groups)"

definition groupByExt :: "(string \<times> string) list \<Rightarrow> (string \<times> imageEntry list) list" where
  "groupByExt images =
     (let groups = fold addImage images []
      in map (\<lambda>(ext, l). (ext, sort_key name l)) groups)"

subsection \<open>matchExtGroup\<close>

definition info :: "imageEntry \<Rightarrow> ImageInfo" where
  "info img = ImageInfo (name img) (path img)"

text \<open>
  Phase 1. \<open>scanList2\<close> is the inner loop for one image of the first list: it walks the
  second list with the index \<open>j\<close>, passes over an index that is matched, over a comparison
  that returns an error and over one that reports a difference, and stops at the first
  image reported equal. \<open>phase1\<close> is the outer loop with the index \<open>i\<close>; its state is the two
  index sets and the result.
\<close>

fun scanList2 :: "magick \<Rightarrow> string \<Rightarrow> imageEntry \<Rightarrow> imageEntry list \<Rightarrow> nat \<Rightarrow> nat set
    \<Rightarrow> (nat \<times> imageEntry) option" where
  "scanList2 run tempDir img1 [] j matched2 = None"
| "scanList2 run tempDir img1 (img2 # rest) j matched2 =
     (if j \<in> matched2 then scanList2 run tempDir img1 rest (Suc j) matched2
      else (case compare run (path img1) (path img2) tempDir of
              Inl err \<Rightarrow> scanList2 run tempDir img1 rest (Suc j) matched2
            | Inr (isDiff, psnr, diffPath) \<Rightarrow>
                if \<not> isDiff then Some (j, img2)
                else scanList2 run tempDir img1 rest (Suc j) matched2))"

fun phase1 :: "magick \<Rightarrow> string \<Rightarrow> imageEntry list \<Rightarrow> nat \<Rightarrow> imageEntry list
    \<Rightarrow> nat set \<times> nat set \<times> MatchResult \<Rightarrow> nat set \<times> nat set \<times> MatchResult" where
  "phase1 run tempDir [] i list2 st = st"
| "phase1 run tempDir (img1 # rest) i list2 (matched1, matched2, result) =
     (case scanList2 run tempDir img1 list2 0 matched2 of
        None \<Rightarrow> phase1 run tempDir rest (Suc i) list2 (matched1, matched2, result)
      | Some (j, img2) \<Rightarrow>
          phase1 run tempDir rest (Suc i) list2
            (insert i matched1, insert j matched2,
             result\<lparr>Matched := Matched result @ [MatchedPair (info img1) (info img2)]\<rparr>))"

text \<open>The images of a list whose index, counted from \<open>i\<close>, is not in the set.\<close>

fun unmatched :: "nat \<Rightarrow> imageEntry list \<Rightarrow> nat set \<Rightarrow> imageEntry list" where
  "unmatched i [] matched = []"
| "unmatched i (img # rest) matched =
     (if i \<notin> matched then img # unmatched (Suc i) rest matched
      else unmatched (Suc i) rest matched)"

text \<open>
  Phase 2 runs over the pairs \<open>(unmatched1[i], unmatched2[i])\<close> for \<open>i < minLen\<close>. The first
  comparison that returns an error ends the function with the wrapped error. The renaming
  of the difference image is an effect on the file system only.
\<close>

definition finalDiffPath :: "string \<Rightarrow> imageEntry \<Rightarrow> imageEntry \<Rightarrow> bool \<Rightarrow> string \<Rightarrow> string" where
  "finalDiffPath diffImgsDir img1 img2 isDiff tmpDiffPath =
     (if isDiff \<and> tmpDiffPath \<noteq> [] then
        (let ext = Ext (name img1);
             base1 = TrimSuffix (name img1) ext;
             base2 = TrimSuffix (name img2) ext
         in Join diffImgsDir (base1 @ ''-'' @ base2 @ ext))
      else [])"

fun phase2 :: "magick \<Rightarrow> string \<Rightarrow> (imageEntry \<times> imageEntry) list \<Rightarrow> MatchResult
    \<Rightarrow> error + MatchResult" where
  "phase2 run diffImgsDir [] result = Inr result"
| "phase2 run diffImgsDir ((img1, img2) # rest) result =
     (case compare run (path img1) (path img2) diffImgsDir of
        Inl err \<Rightarrow> Inl (PairFailed (name img1) (name img2) err)
      | Inr (isDiff, psnr, tmpDiffPath) \<Rightarrow>
          phase2 run diffImgsDir rest
            (result\<lparr>Different := Different result @
               [\<lparr>Image1 = info img1, Image2 = info img2, PSNR = psnr,
                 DiffPath = finalDiffPath diffImgsDir img1 img2 isDiff tmpDiffPath\<rparr>]\<rparr>))"

definition matchExtGroup :: "magick \<Rightarrow> imageEntry list \<Rightarrow> imageEntry list \<Rightarrow> string \<Rightarrow> string
    \<Rightarrow> MatchResult \<Rightarrow> error + MatchResult" where
  "matchExtGroup run list1 list2 tempDir diffImgsDir result =
     (let (matched1, matched2, result) = phase1 run tempDir list1 0 list2 ({}, {}, result);
          unmatched1 = unmatched 0 list1 matched1;
          unmatched2 = unmatched 0 list2 matched2;
          minLen = (if length unmatched2 < length unmatched1 then length unmatched2
                    else length unmatched1)
      in (case phase2 run diffImgsDir (zip (take minLen unmatched1) (take minLen unmatched2)) result of
            Inl err \<Rightarrow> Inl err
          | Inr result \<Rightarrow>
              Inr (result\<lparr>OnlyIn1 := OnlyIn1 result @ map info (drop minLen unmatched1),
                          OnlyIn2 := OnlyIn2 result @ map info (drop minLen unmatched2)\<rparr>)))"

subsection \<open>MatchImageSets\<close>

text \<open>
  What the call meets outside the program: the comparison program, the capability probe
  and the creation of the temporary directory (\<open>None\<close> when \<open>os.MkdirTemp\<close> fails).
\<close>

record world =
  magick :: magick
  hasLibreOffice :: bool
  MkdirTemp :: "string option"

definition emptyResult :: MatchResult where
  "emptyResult = \<lparr>Matched = [], Different = [], OnlyIn1 = [], OnlyIn2 = [], Skipped = []\<rparr>"

definition sortedExts :: "(string \<times> imageEntry list) list \<Rightarrow> (string \<times> imageEntry list) list \<Rightarrow> string list" where
  "sortedExts groups1 groups2 = sort (remdups (map fst groups1 @ map fst groups2))"

fun matchGroups :: "world \<Rightarrow> (string \<times> imageEntry list) list \<Rightarrow> (string \<times> imageEntry list) list
    \<Rightarrow> string \<Rightarrow> string \<Rightarrow> string list \<Rightarrow> MatchResult \<Rightarrow> error + MatchResult" where
  "matchGroups w groups1 groups2 tempDir diffImgsDir [] result = Inr result"
| "matchGroups w groups1 groups2 tempDir diffImgsDir (ext # exts) result =
     (let list1 = lookup groups1 ext; list2 = lookup groups2 ext
      in if \<not> canCompareExt (hasLibreOffice w) ext then
           matchGroups w groups1 groups2 tempDir diffImgsDir exts
             (result\<lparr>Skipped := (Skipped result @ map info list1) @ map info list2\<rparr>)
         else (case matchExtGroup (magick w) list1 list2 tempDir diffImgsDir result of
                 Inl err \<Rightarrow> Inl err
               | Inr result \<Rightarrow> matchGroups w groups1 groups2 tempDir diffImgsDir exts result))"

definition MatchImageSets :: "world \<Rightarrow> (string \<times> string) list \<Rightarrow> (string \<times> string) list \<Rightarrow> string
    \<Rightarrow> error + MatchResult" where
  "MatchImageSets w images1 images2 diffImgsDir =
     (case MkdirTemp w of
        None \<Rightarrow> Inl MkdirTempFailed
      | Some tempDir \<Rightarrow>
          (let groups1 = groupByExt images1;
               groups2 = groupByExt images2
           in matchGroups w groups1 groups2 tempDir diffImgsDir (sortedExts groups1 groups2)
                emptyResult))"

section \<open>Notions used in the statements\<close>

text \<open>
  The channel values of a report that the loop of \<open>parsePSNROutput\<close> takes into account:
  the second groups of the matches, without every \<open>inf\<close> and every value that
  \<open>ParseFloat\<close> rejects. \<open>zeroSignal\<close> is the test of the fallback branch.
\<close>

definition channelScore :: "string \<Rightarrow> rat option" where
  "channelScore val = (if ToLower val = ''inf'' then None else ParseFloat val)"

definition channelScores :: "string \<Rightarrow> rat list" where
  "channelScores output = List.map_filter channelScore (FindAllStringSubmatch output)"

definition zeroSignal :: "string \<Rightarrow> bool" where
  "zeroSignal output = (Contains output '' 0 '' \<or> Contains output [CHR '' '', CHR ''0'', CHR 0x0A])"

text \<open>
  The path of the difference image that \<open>compare\<close> hands to the program, and what phase 1
  reads off a comparison: nothing on an error, otherwise \<open>isDiff\<close>.
\<close>

definition cmpPath :: "string \<Rightarrow> string \<Rightarrow> string" where
  "cmpPath outputDir image1 = Join outputDir (TrimSuffix (Base image1) (Ext image1) @ ''_cmp.png'')"

definition decision :: "error + (bool \<times> rat \<times> string) \<Rightarrow> bool option" where
  "decision c = (case c of Inl err \<Rightarrow> None | Inr (isDiff, psnr, diffPath) \<Rightarrow> Some isDiff)"

text \<open>
  An entry of an input map: its group key, its \<open>imageEntry\<close>, its \<open>ImageInfo\<close>, and whether
  its extension can be compared in the world \<open>w\<close>.
\<close>

definition extKey :: "string \<times> string \<Rightarrow> string" where
  "extKey e = ToLower (Ext (fst e))"

definition entry :: "string \<times> string \<Rightarrow> imageEntry" where
  "entry e = imageEntry (fst e) (snd e)"



text \<open>
  The images of the first and of the second input that a result holds outside
  \<open>Skipped\<close>, as multisets; the sort key of a leftover list: extension group first,
  name second.
\<close>

definition side1 :: "MatchResult \<Rightarrow> ImageInfo multiset" where
  "side1 r = mset (map MatchedPair.Image1 (Matched r)) + mset (map DiffPair.Image1 (Different r)) + mset (OnlyIn1 r)"

definition side2 :: "MatchResult \<Rightarrow> ImageInfo multiset" where
  "side2 r = mset (map MatchedPair.Image2 (Matched r)) + mset (map DiffPair.Image2 (Different r)) + mset (OnlyIn2 r)"


text \<open>
  Phase 2 of \<open>matchExtGroup\<close> in parts: the comparison of a pair in the output directory,
  the record appended for it, the number of pairs, and the pairs themselves, which are
  the leftovers of phase 1 zipped (phase 1 does not read the result it extends, so the
  pairs are those of a run on the empty result).
\<close>

definition comparePair :: "magick \<Rightarrow> string \<Rightarrow> imageEntry \<times> imageEntry \<Rightarrow> error + (bool \<times> rat \<times> string)" where
  "comparePair run d p = compare run (path (fst p)) (path (snd p)) d"

definition diffPair :: "string \<Rightarrow> imageEntry \<times> imageEntry \<Rightarrow> bool \<times> rat \<times> string \<Rightarrow> DiffPair" where
  "diffPair d p c =
     \<lparr>Image1 = info (fst p), Image2 = info (snd p), PSNR = fst (snd c),
      DiffPath = finalDiffPath d (fst p) (snd p) (fst c) (snd (snd c))\<rparr>"

definition minLen :: "imageEntry list \<Rightarrow> imageEntry list \<Rightarrow> nat" where
  "minLen u1 u2 = (if length u2 < length u1 then length u2 else length u1)"


text \<open>
  Three runs of the comparison program for the examples: equal images, different images
  (exit status 1), and a failure (exit status 2, nothing to parse).
\<close>

definition procIdentical :: process where
  "procIdentical = \<lparr>runErr = None, stdout = [], stderr = ''all: inf''\<rparr>"

definition procDifferent :: process where
  "procDifferent = \<lparr>runErr = Some (ExitError 1), stdout = [], stderr = ''all: 0.5''\<rparr>"

definition procFailed :: process where
  "procFailed = \<lparr>runErr = Some (ExitError 2), stdout = [], stderr = ''error''\<rparr>"

text \<open>
  An example call: the comparison program finds \<open>/1/a.png\<close> and \<open>/2/a.png\<close> equal and
  every other pair different; the converter for vector images is not installed.
\<close>

definition exampleWorld :: world where
  "exampleWorld =
     \<lparr>magick = (\<lambda>a b diffPath.
         if (a, b) = (''/1/a.png'', ''/2/a.png'') then procIdentical else procDifferent),
      hasLibreOffice = False,
      MkdirTemp = Some ''/t''\<rparr>"

definition exampleImages1 :: "(string \<times> string) list" where
  "exampleImages1 = [(''b.png'', ''/1/b.png''), (''a.png'', ''/1/a.png''), (''x.wmf'', ''/1/x.wmf'')]"

definition exampleImages2 :: "(string \<times> string) list" where
  "exampleImages2 = [(''a.png'', ''/2/a.png''), (''c.png'', ''/2/c.png''), (''d.png'', ''/2/d.png'')]"


section \<open>Lemmas\<close>

subsection \<open>Reports\<close>

lemma round64_nonneg: "round64 n d = Some v \<Longrightarrow> 0 \<le> v"
  by (auto simp: round64_def Let_def pow2_def split: if_splits)

lemma ParseFloat_nonneg: "ParseFloat s = Some v \<Longrightarrow> 0 \<le> v"
  by (auto simp: ParseFloat_def Let_def split: if_splits dest: round64_nonneg)

lemma channelScore_nonneg: "channelScore val = Some v \<Longrightarrow> 0 \<le> v"
  by (auto simp: channelScore_def split: if_splits dest: ParseFloat_nonneg)

lemma psnrStep_skip: "channelScore val = None \<Longrightarrow> psnrStep val st = st"
  by (auto simp: channelScore_def psnrStep_def split: if_splits)

lemma psnrStep_score:
  "channelScore val = Some v \<Longrightarrow>
   psnrStep val st = (v < PSNRThreshold \<or> fst st, if snd st < 0 \<or> v < snd st then v else snd st)"
  by (auto simp: channelScore_def psnrStep_def Let_def split: if_splits)

lemma map_filter_snoc:
  "List.map_filter f (xs @ [x]) = List.map_filter f xs @ (case f x of None \<Rightarrow> [] | Some y \<Rightarrow> [y])"
  by (simp add: List.map_filter_def split: option.splits)

lemma fold_psnrStep:
  "fold psnrStep vals (False, - 1) =
     ((\<exists>v \<in> set (List.map_filter channelScore vals). v < PSNRThreshold),
      if List.map_filter channelScore vals = [] then - 1
      else Min (set (List.map_filter channelScore vals)))"
proof (induction vals rule: rev_induct)
  case Nil
  show ?case by (simp add: List.map_filter_def)
next
  case (snoc val vals)
  let ?S = "List.map_filter channelScore vals"
  show ?case
  proof (cases "channelScore val")
    case None
    then show ?thesis using snoc by (simp add: psnrStep_skip map_filter_snoc)
  next
    case (Some v)
    have nonneg: "\<forall>u \<in> set ?S. 0 \<le> u"
      by (auto simp: List.map_filter_def dest: channelScore_nonneg)
    show ?thesis
    proof (cases "?S = []")
      case True
      then show ?thesis using snoc Some
        by (simp add: psnrStep_score map_filter_snoc)
    next
      case False
      define m where "m = Min (set ?S)"
      have "m \<in> set ?S" unfolding m_def using False by (intro Min_in) auto
      then have m: "\<not> m < 0" using nonneg by (simp add: not_less)
      have Min_snoc: "Min (set (?S @ [v])) = min v m"
        unfolding m_def using False by (simp add: Min_insert)
      have IH: "fold psnrStep vals (False, - 1) = ((\<exists>u \<in> set ?S. u < PSNRThreshold), m)"
        unfolding m_def using snoc False by simp
      have "fold psnrStep (vals @ [val]) (False, - 1) = psnrStep val ((\<exists>u \<in> set ?S. u < PSNRThreshold), m)"
        using IH by simp
      also have "\<dots> = (v < PSNRThreshold \<or> (\<exists>u \<in> set ?S. u < PSNRThreshold), min v m)"
        using Some m by (cases "v < m") (auto simp: psnrStep_score min_def)
      finally show ?thesis
        using Some False Min_snoc by (auto simp: map_filter_snoc)
    qed
  qed
qed

lemma channelScores_nonneg: "v \<in> set (channelScores output) \<Longrightarrow> 0 \<le> v"
  by (auto simp: channelScores_def List.map_filter_def dest: channelScore_nonneg)

lemma parsePSNROutput_eq:
  "parsePSNROutput output =
     (if channelScores output = [] then (if zeroSignal output then (True, 0) else (False, - 1))
      else ((\<exists>v \<in> set (channelScores output). v < PSNRThreshold), Min (set (channelScores output))))"
proof (cases "channelScores output = []")
  case True
  then show ?thesis
    by (simp add: parsePSNROutput_def fold_psnrStep channelScores_def zeroSignal_def)
next
  case False
  define m where "m = Min (set (channelScores output))"
  have "m \<in> set (channelScores output)" unfolding m_def using False by (intro Min_in) auto
  then have m: "\<not> m < 0" by (auto dest: channelScores_nonneg)
  have "fold psnrStep (FindAllStringSubmatch output) (False, - 1) =
          ((\<exists>v \<in> set (channelScores output). v < PSNRThreshold), m)"
    unfolding m_def using False by (simp add: fold_psnrStep channelScores_def)
  then have "parsePSNROutput output = ((\<exists>v \<in> set (channelScores output). v < PSNRThreshold), m)"
    using m by (simp add: parsePSNROutput_def)
  then show ?thesis using False by (simp add: m_def)
qed

subsection \<open>Grouping\<close>

lemma lookup_update: "lookup (AList.update k v al) k' = (if k' = k then v else lookup al k')"
  by (simp add: lookup_def update_conv)

lemma lookup_addImage:
  "lookup (addImage e g) ext = lookup g ext @ (if extKey e = ext then [entry e] else [])"
  by (auto simp: addImage_def Let_def lookup_update extKey_def entry_def)

lemma keys_addImage: "fst ` set (addImage e g) = insert (extKey e) (fst ` set g)"
  by (simp add: addImage_def Let_def dom_update extKey_def)

lemma lookup_fold_addImage:
  "lookup (fold addImage images g) ext = lookup g ext @ map entry (filter (\<lambda>e. extKey e = ext) images)"
  by (induction images arbitrary: g) (auto simp: lookup_addImage)

lemma keys_fold_addImage:
  "fst ` set (fold addImage images g) = fst ` set g \<union> extKey ` set images"
  by (induction images arbitrary: g) (auto simp: keys_addImage)

lemma lookup_map_sort:
  "lookup (map (\<lambda>(ext, l). (ext, sort_key name l)) g) ext = sort_key name (lookup g ext)"
  by (simp add: lookup_def map_of_map split: option.splits)

lemma lookup_Nil: "lookup [] ext = []"
  by (simp add: lookup_def)

lemma lookup_groupByExt:
  "lookup (groupByExt images) ext = sort_key name (map entry (filter (\<lambda>e. extKey e = ext) images))"
  by (simp add: groupByExt_def lookup_map_sort lookup_fold_addImage lookup_Nil)

lemma keys_groupByExt: "set (map fst (groupByExt images)) = extKey ` set images"
proof -
  have "fst ` set (groupByExt images) = fst ` set (fold addImage images [])"
    by (force simp: groupByExt_def)
  then show ?thesis by (simp add: keys_fold_addImage)
qed


lemma sorted_sortedExts: "sorted (sortedExts g1 g2)"
  by (simp add: sortedExts_def)

lemma distinct_sortedExts: "distinct (sortedExts g1 g2)"
  by (simp add: sortedExts_def)

subsection \<open>Phase 1\<close>




lemma phase1_fields:
  "phase1 run t l1 i l2 (m1, m2, res) = (m1', m2', res') \<Longrightarrow>
   Different res' = Different res \<and> OnlyIn1 res' = OnlyIn1 res \<and> OnlyIn2 res' = OnlyIn2 res \<and>
   Skipped res' = Skipped res"
proof (induction l1 arbitrary: i m1 m2 res)
  case Nil
  then show ?case by simp
next
  case (Cons a l1)
  show ?case
  proof (cases "scanList2 run t a l2 0 m2")
    case None
    with Cons.prems show ?thesis by (auto dest!: Cons.IH)
  next
    case (Some jb)
    with Cons.prems show ?thesis by (cases jb) (auto dest!: Cons.IH)
  qed
qed




subsection \<open>Phase 2\<close>

lemma phase2_Cons:
  "phase2 run d (p # ps) res =
     (case comparePair run d p of
        Inl err \<Rightarrow> Inl (PairFailed (name (fst p)) (name (snd p)) err)
      | Inr c \<Rightarrow> phase2 run d ps (res\<lparr>Different := Different res @ [diffPair d p c]\<rparr>))"
  by (cases p) (auto simp: comparePair_def diffPair_def split: sum.splits)

lemma phase2_Inr:
  "phase2 run d ps res = Inr res' \<Longrightarrow>
   (\<forall>p \<in> set ps. \<not> isl (comparePair run d p)) \<and>
   res' = res\<lparr>Different := Different res @ map (\<lambda>p. diffPair d p (projr (comparePair run d p))) ps\<rparr>"
proof (induction ps arbitrary: res)
  case Nil
  then show ?case by simp
next
  case (Cons p ps)
  show ?case
  proof (cases "comparePair run d p")
    case (Inl err)
    with Cons.prems show ?thesis by (simp add: phase2_Cons)
  next
    case (Inr c)
    with Cons.prems have "phase2 run d ps (res\<lparr>Different := Different res @ [diffPair d p c]\<rparr>) = Inr res'"
      by (simp add: phase2_Cons)
    from Cons.IH[OF this] Inr show ?thesis by simp
  qed
qed


subsection \<open>One extension group\<close>

lemma matchExtGroup_unfold:
  assumes "phase1 run t l1 0 l2 ({}, {}, res) = (m1, m2, r1)"
  shows "matchExtGroup run l1 l2 t d res =
     (case phase2 run d (zip (take (minLen (unmatched 0 l1 m1) (unmatched 0 l2 m2)) (unmatched 0 l1 m1))
                             (take (minLen (unmatched 0 l1 m1) (unmatched 0 l2 m2)) (unmatched 0 l2 m2))) r1 of
        Inl err \<Rightarrow> Inl err
      | Inr r2 \<Rightarrow> Inr (r2\<lparr>OnlyIn1 := OnlyIn1 r2 @ map info (drop (minLen (unmatched 0 l1 m1) (unmatched 0 l2 m2)) (unmatched 0 l1 m1)),
                          OnlyIn2 := OnlyIn2 r2 @ map info (drop (minLen (unmatched 0 l1 m1) (unmatched 0 l2 m2)) (unmatched 0 l2 m2))\<rparr>))"
  by (simp only: matchExtGroup_def minLen_def Let_def assms prod.case)




lemma matchExtGroup_Inr:
  assumes ok: "matchExtGroup run l1 l2 t d res = Inr res'"
    and p1: "phase1 run t l1 0 l2 ({}, {}, res) = (m1, m2, r1)"
  defines "u1 \<equiv> unmatched 0 l1 m1" and "u2 \<equiv> unmatched 0 l2 m2"
  defines "n \<equiv> minLen u1 u2"
  defines "ps \<equiv> zip (take n u1) (take n u2)"
  shows "Matched res' = Matched r1"
    and "Different res' = Different res @ map (\<lambda>p. diffPair d p (projr (comparePair run d p))) ps"
    and "OnlyIn1 res' = OnlyIn1 res @ map info (drop n u1)"
    and "OnlyIn2 res' = OnlyIn2 res @ map info (drop n u2)"
    and "Skipped res' = Skipped res"
    and "\<forall>p \<in> set ps. \<not> isl (comparePair run d p)"
proof -
  from ok obtain r2 where r2: "phase2 run d ps r1 = Inr r2"
    and res': "res' = r2\<lparr>OnlyIn1 := OnlyIn1 r2 @ map info (drop n u1), OnlyIn2 := OnlyIn2 r2 @ map info (drop n u2)\<rparr>"
    unfolding matchExtGroup_unfold[OF p1] ps_def n_def u1_def u2_def
    by (auto split: sum.splits)
  note f = phase1_fields[OF p1]
  note q = phase2_Inr[OF r2]
  show "Matched res' = Matched r1" using res' q by simp
  show "Different res' = Different res @ map (\<lambda>p. diffPair d p (projr (comparePair run d p))) ps"
    using res' q f by simp
  show "OnlyIn1 res' = OnlyIn1 res @ map info (drop n u1)" using res' q f by simp
  show "OnlyIn2 res' = OnlyIn2 res @ map info (drop n u2)" using res' q f by simp
  show "Skipped res' = Skipped res" using res' q f by simp
  show "\<forall>p \<in> set ps. \<not> isl (comparePair run d p)" using q by simp
qed



subsection \<open>All groups\<close>

lemma side_Skipped_update [simp]:
  "side1 (r\<lparr>Skipped := s\<rparr>) = side1 r" "side2 (r\<lparr>Skipped := s\<rparr>) = side2 r"
  by (simp_all add: side1_def side2_def)













subsection \<open>Order of the leftovers\<close>

lemma set_unmatched: "set (unmatched i l m) \<subseteq> set l"
  by (induction l arbitrary: i) auto

lemma sorted_unmatched: "sorted (map name l) \<Longrightarrow> sorted (map name (unmatched i l m))"
proof (induction l arbitrary: i)
  case Nil
  show ?case by simp
next
  case (Cons x l)
  then show ?case using set_unmatched[of "Suc i" l m] by auto
qed



lemma sorted_group: "sorted (map name (lookup (groupByExt images) e))"
  by (simp add: lookup_groupByExt)





subsection \<open>Dependence on the comparison program\<close>

lemma compare_cong:
  "run a b (cmpPath t a) = run' a b (cmpPath t a) \<Longrightarrow> compare run a b t = compare run' a b t"
  by (simp add: compare_def cmpPath_def)

lemma decision_cong:
  assumes "run a b (cmpPath t a) = run' a b (cmpPath t' a)"
  shows "decision (compare run a b t) = decision (compare run' a b t')"
proof -
  define p where "p = run a b (cmpPath t a)"
  have "decision (compare run a b t) =
      (if runErr p \<noteq> None \<and> \<not> fst (parsePSNROutput (stderr p @ stdout p)) \<and>
          (\<exists>code. runErr p = Some (ExitError code) \<and> 1 < code)
       then None else Some (fst (parsePSNROutput (stderr p @ stdout p))))"
    by (auto simp: decision_def compare_def cmpPath_def p_def Let_def
        split: prod.splits option.splits run_error.splits)
  moreover have "decision (compare run' a b t') =
      (if runErr p \<noteq> None \<and> \<not> fst (parsePSNROutput (stderr p @ stdout p)) \<and>
          (\<exists>code. runErr p = Some (ExitError code) \<and> 1 < code)
       then None else Some (fst (parsePSNROutput (stderr p @ stdout p))))"
    unfolding p_def assms
    by (auto simp: decision_def compare_def cmpPath_def Let_def
        split: prod.splits option.splits run_error.splits)
  ultimately show ?thesis by simp
qed

lemma scanList2_step:
  "scanList2 run t a (b # l2) j m =
     (if j \<in> m then scanList2 run t a l2 (Suc j) m
      else (case decision (compare run (path a) (path b) t) of
              Some False \<Rightarrow> Some (j, b)
            | _ \<Rightarrow> scanList2 run t a l2 (Suc j) m))"
  by (auto simp: decision_def split: sum.splits)

lemma scanList2_cong:
  "\<forall>b \<in> set l2. decision (compare run (path a) (path b) t) = decision (compare run' (path a) (path b) t') \<Longrightarrow>
   scanList2 run t a l2 j m = scanList2 run' t' a l2 j m"
proof (induction l2 arbitrary: j)
  case Nil
  show ?case by simp
next
  case (Cons b l2)
  then have "decision (compare run (path a) (path b) t) = decision (compare run' (path a) (path b) t')"
    by simp
  moreover have "scanList2 run t a l2 (Suc j) m = scanList2 run' t' a l2 (Suc j) m"
    using Cons by simp
  ultimately show ?case by (simp only: scanList2_step)
qed

lemma phase1_cong:
  "\<forall>a \<in> set l1. \<forall>b \<in> set l2.
     decision (compare run (path a) (path b) t) = decision (compare run' (path a) (path b) t') \<Longrightarrow>
   phase1 run t l1 i l2 st = phase1 run' t' l1 i l2 st"
proof (induction l1 arbitrary: i st)
  case Nil
  show ?case by simp
next
  case (Cons a l1)
  obtain m1 m2 res where st: "st = (m1, m2, res)" by (cases st)
  have "scanList2 run t a l2 0 m2 = scanList2 run' t' a l2 0 m2"
    using Cons.prems by (intro scanList2_cong) simp
  moreover have "phase1 run t l1 (Suc i) l2 st' = phase1 run' t' l1 (Suc i) l2 st'" for st'
    using Cons.prems by (intro Cons.IH) simp
  ultimately show ?case by (simp add: st split: option.splits)
qed

lemma phase2_cong:
  "\<forall>p \<in> set ps. comparePair run d p = comparePair run' d p \<Longrightarrow>
   phase2 run d ps res = phase2 run' d ps res"
proof (induction ps arbitrary: res)
  case Nil
  show ?case by simp
next
  case (Cons p ps)
  then have "comparePair run d p = comparePair run' d p" by simp
  moreover have "phase2 run d ps res' = phase2 run' d ps res'" for res'
    using Cons.prems by (intro Cons.IH) simp
  ultimately show ?case by (simp add: phase2_Cons split: sum.splits)
qed

lemma matchExtGroup_cong:
  assumes "\<forall>a \<in> set l1. \<forall>b \<in> set l2.
      decision (compare run (path a) (path b) t) = decision (compare run' (path a) (path b) t')"
    and "\<forall>a \<in> set l1. \<forall>b \<in> set l2. compare run (path a) (path b) d = compare run' (path a) (path b) d"
  shows "matchExtGroup run l1 l2 t d res = matchExtGroup run' l1 l2 t' d res"
proof -
  obtain m1 m2 r1 where p1: "phase1 run t l1 0 l2 ({}, {}, res) = (m1, m2, r1)"
    by (cases "phase1 run t l1 0 l2 ({}, {}, res)") auto
  then have p1': "phase1 run' t' l1 0 l2 ({}, {}, res) = (m1, m2, r1)"
    using phase1_cong[OF assms(1)] by simp
  have "phase2 run d (zip (take n (unmatched 0 l1 m1)) (take n (unmatched 0 l2 m2))) r1 =
        phase2 run' d (zip (take n (unmatched 0 l1 m1)) (take n (unmatched 0 l2 m2))) r1" for n
  proof (rule phase2_cong, rule ballI)
    fix p assume "p \<in> set (zip (take n (unmatched 0 l1 m1)) (take n (unmatched 0 l2 m2)))"
    then have "(fst p, snd p) \<in> set (zip (take n (unmatched 0 l1 m1)) (take n (unmatched 0 l2 m2)))"
      by simp
    then have "fst p \<in> set (take n (unmatched 0 l1 m1))" "snd p \<in> set (take n (unmatched 0 l2 m2))"
      by (rule set_zip_leftD, rule set_zip_rightD)
    then have "fst p \<in> set (unmatched 0 l1 m1)" "snd p \<in> set (unmatched 0 l2 m2)"
      by (auto dest: in_set_takeD)
    then have "fst p \<in> set l1" "snd p \<in> set l2" using set_unmatched by blast+
    with assms(2) show "comparePair run d p = comparePair run' d p" by (simp add: comparePair_def)
  qed
  then show ?thesis
    unfolding matchExtGroup_unfold[OF p1] matchExtGroup_unfold[OF p1'] by simp
qed

lemma matchGroups_cong:
  assumes "hasLibreOffice w' = hasLibreOffice w"
    and "\<forall>e \<in> set es. canCompareExt (hasLibreOffice w) e \<longrightarrow>
     (\<forall>a \<in> set (lookup g1 e). \<forall>b \<in> set (lookup g2 e).
        decision (compare (magick w) (path a) (path b) t) = decision (compare (magick w') (path a) (path b) t') \<and>
        compare (magick w) (path a) (path b) d = compare (magick w') (path a) (path b) d)"
  shows "matchGroups w g1 g2 t d es res = matchGroups w' g1 g2 t' d es res"
  using assms(2)
proof (induction es arbitrary: res)
  case Nil
  show ?case by simp
next
  case (Cons e es)
  have rest: "matchGroups w g1 g2 t d es res' = matchGroups w' g1 g2 t' d es res'" for res'
    using Cons.prems by (intro Cons.IH) simp
  show ?case
  proof (cases "canCompareExt (hasLibreOffice w) e")
    case False
    then show ?thesis by (simp add: rest assms(1))
  next
    case True
    with Cons.prems have "matchExtGroup (magick w) (lookup g1 e) (lookup g2 e) t d res =
        matchExtGroup (magick w') (lookup g1 e) (lookup g2 e) t' d res"
      by (intro matchExtGroup_cong) simp_all
    with True show ?thesis by (simp add: rest assms(1) split: sum.splits)
  qed
qed

subsection \<open>Independence of the order of the entries\<close>

lemma sort_key_mset_cong:
  assumes "mset xs = mset ys" and "distinct (map f xs)"
  shows "sort_key f xs = sort_key f ys"
proof -
  have set: "set xs = set ys" using assms(1) by (rule mset_eq_setD)
  have dy: "distinct (map f ys)"
    using assms by (metis mset_eq_imp_distinct_iff mset_map)
  have inj: "inj_on f (set xs)" using assms(2) by (simp add: distinct_map)
  have "map f (sort_key f xs) = map f (sort_key f ys)"
  proof (rule sorted_distinct_set_unique)
    show "sorted (map f (sort_key f xs))" "sorted (map f (sort_key f ys))" by simp_all
    show "distinct (map f (sort_key f xs))" using assms(2) by (simp add: distinct_map)
    show "distinct (map f (sort_key f ys))" using dy by (simp add: distinct_map)
    show "set (map f (sort_key f xs)) = set (map f (sort_key f ys))" using set by simp
  qed
  moreover have "inj_on f (set (sort_key f xs) \<union> set (sort_key f ys))" using inj set by simp
  ultimately show ?thesis by (simp add: inj_on_map_eq_map)
qed

lemma lookup_groupByExt_perm:
  assumes "mset images = mset images'" and "distinct (map fst images)"
  shows "lookup (groupByExt images) e = lookup (groupByExt images') e"
proof -
  let ?P = "\<lambda>x. extKey x = e"
  have "mset (map entry (filter ?P images)) = mset (map entry (filter ?P images'))"
    using assms(1) by simp
  moreover have "distinct (map name (map entry (filter ?P images)))"
    using distinct_map_filter[OF assms(2), of ?P] by (simp add: entry_def comp_def)
  ultimately show ?thesis unfolding lookup_groupByExt by (rule sort_key_mset_cong)
qed

lemma sortedExts_perm:
  assumes "mset images1 = mset images1'" and "mset images2 = mset images2'"
  shows "sortedExts (groupByExt images1) (groupByExt images2) =
         sortedExts (groupByExt images1') (groupByExt images2')"
proof -
  have "set images1 = set images1'" "set images2 = set images2'"
    using assms by (auto dest: mset_eq_setD)
  then have "set (map fst (groupByExt images1) @ map fst (groupByExt images2)) =
        set (map fst (groupByExt images1') @ map fst (groupByExt images2'))"
    using keys_groupByExt by (simp del: set_map)
  then show ?thesis
    unfolding sortedExts_def by (metis sorted_list_of_set_sort_remdups)
qed

lemma matchGroups_lookup_cong:
  assumes "\<forall>e. lookup g1 e = lookup g1' e" and "\<forall>e. lookup g2 e = lookup g2' e"
  shows "matchGroups w g1 g2 t d es res = matchGroups w g1' g2' t d es res"
  using assms by (induction es arbitrary: res) (simp_all add: Let_def split: sum.splits)

subsection \<open>Errors\<close>


lemma zip_take_minLen: "zip (take (minLen u1 u2) u1) (take (minLen u1 u2) u2) = zip u1 u2"
proof -
  have "zip u1 u2 = take (minLen u1 u2) (zip u1 u2)" by (simp add: minLen_def)
  then show ?thesis by (simp add: take_zip)
qed




subsection \<open>Capability routing and letter case\<close>



subsection \<open>Evaluation on concrete inputs\<close>

lemma bitlen_0 [simp]: "bitlen 0 = 0"
  by (simp add: bitlen.simps)

lemma bitlen_1 [simp]: "bitlen (Suc 0) = 1"
  by (simp add: bitlen.simps)

lemma bitlen_numeral [simp]: "bitlen (numeral k) = Suc (bitlen (numeral k div 2))"
  by (subst bitlen.simps) simp

lemmas scan_eval = matchAt_def channelName_def channelValue_def stripFold_def ToLower_def
  toLowerChar_def isSpace_def isDigitDot_def isDigit_def

lemmas float_eval = ParseFloat_def decimal_syntax_def isDigit_def decimal_nat_def digit_val_def
  round64_def ilog2_def mul2_def pow2_def round_half_even_def Let_def

lemmas path_eval = cmpPath_def Join_def Clean_def Base_def Ext_def TrimSuffix_def suffix_def


lemma ParseFloat_half: "ParseFloat ''0.5'' = Some (1 / 2)"
  by (simp add: float_eval)

lemma scores_inf: "channelScores ''all: inf'' = []"
  by (simp add: channelScores_def channelScore_def map_filter_simps scan_eval)

lemma scores_half: "channelScores ''all: 0.5'' = [1 / 2]"
proof -
  have "FindAllStringSubmatch ''all: 0.5'' = [''0.5'']" by (simp add: scan_eval)
  then show ?thesis
    by (simp add: channelScores_def channelScore_def map_filter_simps ParseFloat_half
        ToLower_def toLowerChar_def)
qed

lemma scores_error: "channelScores ''error'' = []"
  by (simp add: channelScores_def channelScore_def map_filter_simps scan_eval)


lemma parse_identical: "parsePSNROutput ''all: inf'' = (False, - 1)"
  by (simp add: parsePSNROutput_eq scores_inf zeroSignal_def)

lemma parse_different: "parsePSNROutput ''all: 0.5'' = (True, 1 / 2)"
proof -
  have "\<exists>v \<in> set [1 / 2 :: rat]. v < PSNRThreshold"
    by (intro bexI[of _ "1 / 2"]) (simp_all add: PSNRThreshold_def)
  then show ?thesis by (simp only: parsePSNROutput_eq scores_half) simp
qed

lemma parse_failed: "parsePSNROutput ''error'' = (False, - 1)"
  by (simp add: parsePSNROutput_eq scores_error zeroSignal_def)

lemma compare_identical:
  "run a b (cmpPath t a) = procIdentical \<Longrightarrow> compare run a b t = Inr (False, - 1, [])"
  by (simp add: compare_def cmpPath_def procIdentical_def parse_identical)

lemma compare_different:
  "run a b (cmpPath t a) = procDifferent \<Longrightarrow> compare run a b t = Inr (True, 1 / 2, cmpPath t a)"
  by (simp add: compare_def cmpPath_def procDifferent_def parse_different)

lemma compare_failed:
  "run a b (cmpPath t a) = procFailed \<Longrightarrow>
   compare run a b t = Inl (CompareFailed (ExitError 2) ''error'')"
  by (simp add: compare_def cmpPath_def procFailed_def parse_failed)

lemmas compare_eval = compare_identical compare_different compare_failed



section \<open>The claims\<close>

subsection \<open>C1: which errors of the comparison end the call\<close>




subsection \<open>C2: when compare returns an error\<close>




subsection \<open>C3: classification of a report\<close>

text \<open>
  Claim C3. A report is classified as different if and only if one of its channel
  scores is below the threshold, which is 1, or it has no channel score and shows the
  zero signal. A report whose scores are all at least 1 is not different; a report
  without channel score and without zero signal yields not different with the score -1.
\<close>

theorem parsePSNROutput_different:
  "(fst (parsePSNROutput output) \<longleftrightarrow>
      (\<exists>v \<in> set (channelScores output). v < PSNRThreshold) \<or>
      (channelScores output = [] \<and> zeroSignal output)) \<and>
   PSNRThreshold = 1 \<and>
   (channelScores output \<noteq> [] \<and> (\<forall>v \<in> set (channelScores output). 1 \<le> v) \<longrightarrow>
      \<not> fst (parsePSNROutput output)) \<and>
   (channelScores output = [] \<and> \<not> zeroSignal output \<longrightarrow> parsePSNROutput output = (False, - 1))"
  by (auto simp: parsePSNROutput_eq PSNRThreshold_def)

text \<open>
  Witness for C3: a score of exactly 1.0 is not different, 0.5 is, a report without
  scores is not, and one without scores that shows the zero signal is.
\<close>

theorem parsePSNROutput_different_witness:
  "\<not> fst (parsePSNROutput ''all: 1.0'') \<and> fst (parsePSNROutput ''all: 0.5'') \<and>
   parsePSNROutput ''error'' = (False, - 1) \<and> fst (parsePSNROutput '' 0 '')"
proof -
  have one: "channelScores ''all: 1.0'' = [1]"
  proof -
    have "FindAllStringSubmatch ''all: 1.0'' = [''1.0'']" by (simp add: scan_eval)
    moreover have "ParseFloat ''1.0'' = Some 1" by (simp add: float_eval)
    ultimately show ?thesis
      by (simp add: channelScores_def channelScore_def map_filter_simps ToLower_def toLowerChar_def)
  qed
  have zero: "channelScores '' 0 '' = []"
    by (simp add: channelScores_def channelScore_def map_filter_simps scan_eval)
  have "\<not> fst (parsePSNROutput ''all: 1.0'')"
    using parsePSNROutput_different[of "''all: 1.0''"] by (simp add: one)
  moreover have "fst (parsePSNROutput ''all: 0.5'')"
    using parsePSNROutput_different[of "''all: 0.5''"] by (simp add: scores_half)
  moreover have "parsePSNROutput ''error'' = (False, - 1)"
    using parsePSNROutput_different[of "''error''"] by (simp add: scores_error zeroSignal_def)
  moreover have "fst (parsePSNROutput '' 0 '')"
    using parsePSNROutput_different[of "'' 0 ''"] by (simp add: zero zeroSignal_def)
  ultimately show ?thesis by blast
qed

subsection \<open>C4: every image lands in exactly one bucket\<close>



subsection \<open>C5: phase 2 records every pair as different\<close>

text \<open>
  Claim C5. Let \<open>U1\<close> and \<open>U2\<close> be the images that phase 1 leaves unmatched, in the order of
  their lists (ascending by name when the lists are). When \<open>matchExtGroup\<close> returns a
  result, it has appended to \<open>Different\<close> one record for every \<open>k\<close> below the smaller of
  the two lengths, built from \<open>U1[k]\<close>, \<open>U2[k]\<close> and the score of their comparison in the
  output directory, whatever \<open>isDiff\<close> that comparison reports; \<open>Matched\<close> is as phase 1
  left it.
\<close>

theorem matchExtGroup_phase2:
  assumes "phase1 run t l1 0 l2 ({}, {}, res) = (m1, m2, r1)"
    and "matchExtGroup run l1 l2 t d res = Inr res'"
  shows "let U1 = unmatched 0 l1 m1; U2 = unmatched 0 l2 m2; n = min (length U1) (length U2) in
     Matched res' = Matched r1 \<and>
     (sorted (map name l1) \<longrightarrow> sorted (map name U1)) \<and>
     (sorted (map name l2) \<longrightarrow> sorted (map name U2)) \<and>
     length (Different res') = length (Different res) + n \<and>
     take (length (Different res)) (Different res') = Different res \<and>
     (\<forall>k<n. \<exists>isDiff psnr tmp.
        compare run (path (U1 ! k)) (path (U2 ! k)) d = Inr (isDiff, psnr, tmp) \<and>
        Different res' ! (length (Different res) + k) =
          \<lparr>Image1 = info (U1 ! k), Image2 = info (U2 ! k), PSNR = psnr,
           DiffPath = finalDiffPath d (U1 ! k) (U2 ! k) isDiff tmp\<rparr>)"
proof -
  define U1 where "U1 = unmatched 0 l1 m1"
  define U2 where "U2 = unmatched 0 l2 m2"
  define n where "n = min (length U1) (length U2)"
  define ps where "ps = zip U1 U2"
  note r = matchExtGroup_Inr[OF assms(2,1), unfolded zip_take_minLen, folded U1_def U2_def, folded ps_def]
  have len: "length ps = n" by (simp add: ps_def n_def)
  have D: "Different res' = Different res @ map (\<lambda>p. diffPair d p (projr (comparePair run d p))) ps"
    by (rule r(2))
  have each: "\<exists>isDiff psnr tmp.
        compare run (path (U1 ! k)) (path (U2 ! k)) d = Inr (isDiff, psnr, tmp) \<and>
        Different res' ! (length (Different res) + k) =
          \<lparr>Image1 = info (U1 ! k), Image2 = info (U2 ! k), PSNR = psnr,
           DiffPath = finalDiffPath d (U1 ! k) (U2 ! k) isDiff tmp\<rparr>" if "k < n" for k
  proof -
    have k: "k < length ps" "k < length U1" "k < length U2" using that by (simp_all add: len n_def)
    then have pk: "ps ! k = (U1 ! k, U2 ! k)" by (simp add: ps_def)
    have "ps ! k \<in> set ps" using k(1) by simp
    with r(6) have "\<not> isl (comparePair run d (ps ! k))" by blast
    then obtain c where c: "comparePair run d (ps ! k) = Inr c" by (cases "comparePair run d (ps ! k)") auto
    obtain isDiff psnr tmp where c3: "c = (isDiff, psnr, tmp)" by (cases c)
    have "Different res' ! (length (Different res) + k) = diffPair d (ps ! k) c"
      using k(1) c by (simp add: D nth_append)
    with c c3 pk show ?thesis by (auto simp: comparePair_def diffPair_def)
  qed
  have "Matched res' = Matched r1" by (rule r(1))
  moreover have "length (Different res') = length (Different res) + n" by (simp add: D len)
  moreover have "take (length (Different res)) (Different res') = Different res" by (simp add: D)
  moreover have "sorted (map name l1) \<longrightarrow> sorted (map name U1)" "sorted (map name l2) \<longrightarrow> sorted (map name U2)"
    by (simp_all add: U1_def U2_def sorted_unmatched)
  ultimately show ?thesis using each
    unfolding Let_def U1_def[symmetric] U2_def[symmetric] n_def[symmetric] by blast
qed

text \<open>
  Witness for C5: a program that reports a difference while it writes below \<open>/t\<close> and
  equality otherwise. Phase 1 (in \<open>/t\<close>) matches nothing; phase 2 (in \<open>/o\<close>) finds the
  pair equal and records it in \<open>Different\<close> all the same, with the score -1.
\<close>

theorem matchExtGroup_phase2_witness:
  "compare (\<lambda>a b diffPath. if prefix ''/t'' diffPath then procDifferent else procIdentical)
     ''/1/a.png'' ''/2/b.png'' ''/o'' = Inr (False, - 1, []) \<and>
   matchExtGroup (\<lambda>a b diffPath. if prefix ''/t'' diffPath then procDifferent else procIdentical)
     [imageEntry ''a.png'' ''/1/a.png''] [imageEntry ''b.png'' ''/2/b.png''] ''/t'' ''/o'' emptyResult =
   Inr \<lparr>Matched = [],
        Different = [\<lparr>Image1 = ImageInfo ''a.png'' ''/1/a.png'', Image2 = ImageInfo ''b.png'' ''/2/b.png'',
                      PSNR = - 1, DiffPath = []\<rparr>],
        OnlyIn1 = [], OnlyIn2 = [], Skipped = []\<rparr> \<and>
   length (Different \<lparr>Matched = [],
        Different = [\<lparr>Image1 = ImageInfo ''a.png'' ''/1/a.png'', Image2 = ImageInfo ''b.png'' ''/2/b.png'',
                      PSNR = - 1, DiffPath = []\<rparr>],
        OnlyIn1 = [], OnlyIn2 = [], Skipped = []\<rparr>) = length (Different emptyResult) + 1"
proof -
  let ?run = "\<lambda>a b diffPath :: string. if prefix ''/t'' diffPath then procDifferent else procIdentical"
  let ?l1 = "[imageEntry ''a.png'' ''/1/a.png'']" and ?l2 = "[imageEntry ''b.png'' ''/2/b.png'']"
  let ?r = "\<lparr>Matched = [],
        Different = [\<lparr>Image1 = ImageInfo ''a.png'' ''/1/a.png'', Image2 = ImageInfo ''b.png'' ''/2/b.png'',
                      PSNR = - 1, DiffPath = []\<rparr>],
        OnlyIn1 = [], OnlyIn2 = [], Skipped = []\<rparr>"
  have t: "compare ?run ''/1/a.png'' ''/2/b.png'' ''/t'' = Inr (True, 1 / 2, ''/t/a_cmp.png'')"
    by (simp add: compare_eval path_eval)
  have o: "compare ?run ''/1/a.png'' ''/2/b.png'' ''/o'' = Inr (False, - 1, [])"
    by (simp add: compare_eval path_eval)
  have p1: "phase1 ?run ''/t'' ?l1 0 ?l2 ({}, {}, emptyResult) = ({}, {}, emptyResult)"
    by (simp add: t)
  have g: "matchExtGroup ?run ?l1 ?l2 ''/t'' ''/o'' emptyResult = Inr ?r"
    unfolding matchExtGroup_unfold[OF p1]
    by (simp add: minLen_def o emptyResult_def info_def finalDiffPath_def)
  from matchExtGroup_phase2[OF p1 g]
  have "length (Different ?r) = length (Different emptyResult) + 1"
    by (simp add: Let_def)
  with o g show ?thesis by blast
qed

subsection \<open>C6: the score is the smallest channel value\<close>

text \<open>
  Claim C6. The loop over the channel values starts from the score -1 and ends with the
  smallest channel score of the report, or with -1 when the report has none. That is the
  score \<open>parsePSNROutput\<close> returns, except that a report without channel score that shows
  the zero signal gets the score 0; and it is the score of every outcome of \<open>compare\<close>.
\<close>

theorem parsePSNROutput_score:
  "snd (fold psnrStep (FindAllStringSubmatch output) (False, - 1)) =
     (if channelScores output = [] then - 1 else Min (set (channelScores output))) \<and>
   (channelScores output \<noteq> [] \<longrightarrow> snd (parsePSNROutput output) = Min (set (channelScores output))) \<and>
   (channelScores output = [] \<and> \<not> zeroSignal output \<longrightarrow>
      snd (parsePSNROutput output) = - 1 \<and> snd (parsePSNROutput output) < 0) \<and>
   (channelScores output = [] \<and> zeroSignal output \<longrightarrow> snd (parsePSNROutput output) = 0) \<and>
   (compare run image1 image2 outputDir = Inr (isDiff, psnr, diffPath) \<longrightarrow>
      (let p = run image1 image2 (cmpPath outputDir image1)
       in psnr = snd (parsePSNROutput (stderr p @ stdout p))))"
proof -
  have "compare run image1 image2 outputDir = Inr (isDiff, psnr, diffPath) \<longrightarrow>
      (let p = run image1 image2 (cmpPath outputDir image1)
       in psnr = snd (parsePSNROutput (stderr p @ stdout p)))"
    by (auto simp: compare_def cmpPath_def Let_def
        split: prod.splits if_splits option.splits run_error.splits)
  then show ?thesis
    by (simp add: parsePSNROutput_eq fold_psnrStep channelScores_def)
qed

text \<open>
  Witness for C6: of the channel values 2 and 0.5 the score is 0.5; a report of \<open>inf\<close>
  alone has the score -1.
\<close>

theorem parsePSNROutput_score_witness:
  "snd (parsePSNROutput ''red: 2 all: 0.5'') = 1 / 2 \<and> snd (parsePSNROutput ''all: inf'') = - 1 \<and>
   compare (\<lambda>a b diffPath. procDifferent) ''/1/a.png'' ''/2/b.png'' ''/o'' =
     Inr (True, 1 / 2, ''/o/a_cmp.png'') \<and>
   snd (parsePSNROutput (stderr procDifferent @ stdout procDifferent)) = 1 / 2"
proof -
  have two: "channelScores ''red: 2 all: 0.5'' = [2, 1 / 2]"
  proof -
    have "FindAllStringSubmatch ''red: 2 all: 0.5'' = [''2'', ''0.5'']" by (simp add: scan_eval)
    moreover have "ParseFloat ''2'' = Some 2" by (simp add: float_eval)
    ultimately show ?thesis
      by (simp add: channelScores_def channelScore_def map_filter_simps ParseFloat_half
          ToLower_def toLowerChar_def)
  qed
  have "snd (parsePSNROutput ''red: 2 all: 0.5'') = 1 / 2"
    using parsePSNROutput_score[of "''red: 2 all: 0.5''"] by (simp add: two)
  moreover have "snd (parsePSNROutput ''all: inf'') = - 1"
    using parsePSNROutput_score[of "''all: inf''"] by (simp add: scores_inf zeroSignal_def)
  moreover have c: "compare (\<lambda>a b diffPath. procDifferent) ''/1/a.png'' ''/2/b.png'' ''/o'' =
     Inr (True, 1 / 2, ''/o/a_cmp.png'')"
    by (simp add: compare_eval path_eval)
  moreover have "snd (parsePSNROutput (stderr procDifferent @ stdout procDifferent)) = 1 / 2"
    using parsePSNROutput_score[of "''all: 0.5''" "\<lambda>a b diffPath. procDifferent" "''/1/a.png''"
        "''/2/b.png''" "''/o''" True "1 / 2" "''/o/a_cmp.png''"] c
    by (simp add: Let_def)
  ultimately show ?thesis by blast
qed

subsection \<open>C7: the result does not depend on the order of the map entries\<close>

text \<open>
  Claim C7. Two calls return the same value when their input maps have the same entries,
  met in whatever order, the capability is the same, the temporary directory is created
  in both or in neither, and the comparison program answers every pair alike in both,
  in the temporary directory of each call and in the output directory. The extensions
  are processed in strictly ascending order and every group is ascending by name.
\<close>

theorem MatchImageSets_order_independent:
  assumes "mset images1 = mset images1'" and "mset images2 = mset images2'"
    and "distinct (map fst images1)" and "distinct (map fst images2)"
    and "hasLibreOffice w' = hasLibreOffice w"
    and "rel_option (\<lambda>t t'. \<forall>p1 p2.
           magick w p1 p2 (cmpPath t p1) = magick w' p1 p2 (cmpPath t' p1) \<and>
           magick w p1 p2 (cmpPath d p1) = magick w' p1 p2 (cmpPath d p1)) (MkdirTemp w) (MkdirTemp w')"
  shows "MatchImageSets w images1 images2 d = MatchImageSets w' images1' images2' d \<and>
         sorted (sortedExts (groupByExt images1) (groupByExt images2)) \<and>
         distinct (sortedExts (groupByExt images1) (groupByExt images2)) \<and>
         (\<forall>e. sorted (map name (lookup (groupByExt images1) e)) \<and>
              sorted (map name (lookup (groupByExt images2) e)))"
proof -
  have perm: "matchGroups w' (groupByExt images1) (groupByExt images2) t d es res =
        matchGroups w' (groupByExt images1') (groupByExt images2') t d es res" for t es res
    by (rule matchGroups_lookup_cong)
      (simp_all add: lookup_groupByExt_perm[OF assms(1,3)] lookup_groupByExt_perm[OF assms(2,4)])
  have "MatchImageSets w images1 images2 d = MatchImageSets w' images1' images2' d"
  proof (cases "MkdirTemp w")
    case None
    with assms(6) have "MkdirTemp w' = None" by (cases "MkdirTemp w'") auto
    with None show ?thesis by (simp add: MatchImageSets_def)
  next
    case (Some t)
    with assms(6) obtain t' where t': "MkdirTemp w' = Some t'"
      and agree: "\<forall>p1 p2. magick w p1 p2 (cmpPath t p1) = magick w' p1 p2 (cmpPath t' p1) \<and>
           magick w p1 p2 (cmpPath d p1) = magick w' p1 p2 (cmpPath d p1)"
      by (cases "MkdirTemp w'") auto
    have "matchGroups w (groupByExt images1) (groupByExt images2) t d es res =
          matchGroups w' (groupByExt images1) (groupByExt images2) t' d es res" for es res
      by (rule matchGroups_cong[OF assms(5)]) (use agree in \<open>auto intro: decision_cong compare_cong\<close>)
    with Some t' show ?thesis
      by (simp add: MatchImageSets_def Let_def perm sortedExts_perm[OF assms(1,2)])
  qed
  then show ?thesis
    by (simp add: sorted_sortedExts distinct_sortedExts sorted_group)
qed

text \<open>
  Witness for C7: the example call against one that meets the entries in another order
  and works in another temporary directory.
\<close>

theorem MatchImageSets_order_independent_witness:
  "MatchImageSets exampleWorld exampleImages1 exampleImages2 ''/o'' =
   MatchImageSets (exampleWorld\<lparr>MkdirTemp := Some ''/u''\<rparr>)
     [(''a.png'', ''/1/a.png''), (''x.wmf'', ''/1/x.wmf''), (''b.png'', ''/1/b.png'')]
     [(''d.png'', ''/2/d.png''), (''c.png'', ''/2/c.png''), (''a.png'', ''/2/a.png'')] ''/o''"
proof -
  have "mset exampleImages1 = mset [(''a.png'', ''/1/a.png''), (''x.wmf'', ''/1/x.wmf''), (''b.png'', ''/1/b.png'')]"
    by (simp add: exampleImages1_def)
  moreover have "mset exampleImages2 = mset [(''d.png'', ''/2/d.png''), (''c.png'', ''/2/c.png''), (''a.png'', ''/2/a.png'')]"
    by (simp add: exampleImages2_def)
  moreover have "distinct (map fst exampleImages1)" "distinct (map fst exampleImages2)"
    by (simp_all add: exampleImages1_def exampleImages2_def)
  moreover have "hasLibreOffice (exampleWorld\<lparr>MkdirTemp := Some ''/u''\<rparr>) = hasLibreOffice exampleWorld"
    by simp
  moreover have "rel_option (\<lambda>t t'. \<forall>p1 p2.
           magick exampleWorld p1 p2 (cmpPath t p1) =
           magick (exampleWorld\<lparr>MkdirTemp := Some ''/u''\<rparr>) p1 p2 (cmpPath t' p1) \<and>
           magick exampleWorld p1 p2 (cmpPath ''/o'' p1) =
           magick (exampleWorld\<lparr>MkdirTemp := Some ''/u''\<rparr>) p1 p2 (cmpPath ''/o'' p1))
         (MkdirTemp exampleWorld) (MkdirTemp (exampleWorld\<lparr>MkdirTemp := Some ''/u''\<rparr>))"
    by (simp add: exampleWorld_def)
  ultimately show ?thesis
    by (rule MatchImageSets_order_independent[THEN conjunct1])
qed

subsection \<open>C8: extensions that cannot be compared\<close>



subsection \<open>C9: order of OnlyIn1 and OnlyIn2\<close>



subsection \<open>C10: the letter case of an extension\<close>



end
